theory Spec2Isabelle
  imports Main "HOL-Library.Stream" "HOL-Library.Signed_Division" "HOL-Library.Sublist"
begin

section \<open>The sensor node and the process it runs in\<close>

text \<open>
  The three programs (\<^verbatim>\<open>OmnisentAI_Seq.cpp\<close>, \<^verbatim>\<open>OmnisentAI_MultiThread.cpp\<close>,
  \<^verbatim>\<open>OmnisentAI_OpenMP.cpp\<close>) declare the same class \<^verbatim>\<open>SensorNode\<close> with five private
  fields. The field \<^verbatim>\<open>id\<close> is called \<open>id_field\<close> here, since \<open>id\<close> is the identity
  function of HOL.

  C++ \<^verbatim>\<open>int\<close> values are modelled as unbounded \<open>int\<close>. With the parameters the constructor
  sets (the only ones a node can have, the fields being private and never assigned) no
  operation of the program leaves the 32-bit range: the largest value computed is
  \<open>2 * range = 2 ^ 24\<close>. Indices of type \<^verbatim>\<open>size_t\<close> are \<open>nat\<close>; a \<^verbatim>\<open>std::vector<int>\<close> cannot
  be long enough for \<^verbatim>\<open>i += 4\<close> to wrap around.
\<close>

record SensorNode =
  id_field :: string
  sample_rate :: int
  bit_depth :: int
  duration :: int
  sleep_interval :: int

text \<open>
  What the program does to the world outside its variables: a line written by \<^verbatim>\<open>log\<close>
  (the time it read and the message; the layout \<^verbatim>\<open>[%F %T]\<close> of the time is the library's),
  a line written to \<^verbatim>\<open>std::cout\<close> directly, and a call of \<^verbatim>\<open>sleep_for\<close> with its seconds.
\<close>

datatype event = Log int string | Cout string | SleepFor nat

text \<open>
  The state of the process: the object \<^verbatim>\<open>*this\<close>, the hidden state of \<^verbatim>\<open>std::rand\<close> as the
  stream of the values it is going to return, the system clock as the stream of its
  future readings, and the events so far.
\<close>

record state =
  self :: SensorNode
  rng :: "int stream"
  clock :: "int stream"
  out :: "event list"

definition rand :: "state \<Rightarrow> int \<times> state" where
  "rand s = (shd (rng s), s\<lparr>rng := stl (rng s)\<rparr>)"

definition read_clock :: "state \<Rightarrow> int \<times> state" where
  "read_clock s = (shd (clock s), s\<lparr>clock := stl (clock s)\<rparr>)"

definition log :: "string \<Rightarrow> state \<Rightarrow> state" where
  "log msg s = (let (now, s') = read_clock s in s'\<lparr>out := out s' @ [Log now msg]\<rparr>)"

text \<open>
  The constructor. \<open>srand\<close> stands for \<^verbatim>\<open>std::srand\<close>: the stream \<^verbatim>\<open>std::rand\<close> produces after
  being seeded with an \<^verbatim>\<open>unsigned\<close> value.
\<close>

definition SensorNode_new ::
  "(nat \<Rightarrow> int stream) \<Rightarrow> string \<Rightarrow> int stream \<Rightarrow> event list \<Rightarrow> state" where
  "SensorNode_new srand node_id clk evs =
     \<lparr>self = \<lparr>id_field = node_id, sample_rate = 400000, bit_depth = 24, duration = 1,
              sleep_interval = 3600\<rparr>,
      rng = srand (nat (shd clk mod 2 ^ 32)),
      clock = stl clk,
      out = evs\<rparr>"

section \<open>Generating the samples (sequential program)\<close>

text \<open>
  \<^verbatim>\<open>for (size_t i = 0; i < data.size(); ++i) data[i] = (std::rand() % (2 * range)) - range;\<close>
  The operator \<^verbatim>\<open>%\<close> of C++ truncates towards zero: it is \<open>smod\<close>.
  \<^verbatim>\<open>range\<close> is \<^verbatim>\<open>1 << (bit_depth - 1)\<close>, and the vector is created with
  \<^verbatim>\<open>sample_rate * duration\<close> zeros. The program has no meaning for a bit depth below 1 or
  above 30 (the shift, or \<^verbatim>\<open>2 * range\<close>, leaves the \<^verbatim>\<open>int\<close> range) nor for a product of
  \<^verbatim>\<open>2 ^ 31\<close> or more (the \<^verbatim>\<open>int\<close> multiplication overflows), and the allocation throws for a
  negative product; with the constructor's 24, 400000 and 1 none of this happens, and the
  statements below about the range and the length of the samples exclude these cases.
\<close>

function gen_loop :: "int \<Rightarrow> nat \<Rightarrow> int list \<Rightarrow> state \<Rightarrow> int list \<times> state" where
  "gen_loop range_v i data s =
     (if i < length data
      then (let (r, s') = rand s
            in gen_loop range_v (i + 1) (data[i := r smod (2 * range_v) - range_v]) s')
      else (data, s))"
  by pat_completeness auto
termination
  by (relation "measure (\<lambda>(range_v, i, data, s). length data - i)") auto

declare gen_loop.simps [simp del]

definition audio_range :: "SensorNode \<Rightarrow> int" where
  "audio_range n = push_bit (nat (bit_depth n - 1)) 1"

definition generateAudioData :: "state \<Rightarrow> int list \<times> state" where
  "generateAudioData s0 =
     (let s1 = log ''Wake: Generating dummy audio data...'' s0;
          range_v = audio_range (self s1);
          data = replicate (nat (sample_rate (self s1) * duration (self s1))) 0
      in gen_loop range_v 0 data s1)"

section \<open>Compressing (sequential program)\<close>

text \<open>
  \<^verbatim>\<open>for (size_t i = 0; i < data.size(); i += 4) compressed.push_back(data[i]);\<close>
\<close>

function compress_loop :: "nat \<Rightarrow> int list \<Rightarrow> int list \<Rightarrow> int list" where
  "compress_loop i data compressed =
     (if i < length data
      then compress_loop (i + 4) data (compressed @ [data ! i])
      else compressed)"
  by pat_completeness auto
termination
  by (relation "measure (\<lambda>(i, data, compressed). length data - i)") auto

declare compress_loop.simps [simp del]

definition compressData :: "int list \<Rightarrow> state \<Rightarrow> int list \<times> state" where
  "compressData data s0 =
     (let s1 = log ''Processing: Compressing audio data...'' s0
      in (compress_loop 0 data [], s1))"

text \<open>
  In the threaded program \<^verbatim>\<open>compressData\<close> appends to a vector it is given by reference.
\<close>

definition compressData_mt :: "int list \<Rightarrow> int list \<Rightarrow> state \<Rightarrow> int list \<times> state" where
  "compressData_mt data compressed s0 =
     (let s1 = log ''Processing: Compressing audio data...'' s0
      in (compress_loop 0 data compressed, s1))"

section \<open>Transmission\<close>

text \<open>
  \<^verbatim>\<open>operator<<\<close> on an \<^verbatim>\<open>int\<close> or a \<^verbatim>\<open>time_t\<close> writes the decimal digits, with a minus sign
  in front of a negative value.
\<close>

definition digit_char :: "nat \<Rightarrow> char" where
  "digit_char d = ''0123456789'' ! d"

function show_nat :: "nat \<Rightarrow> string" where
  "show_nat n = (if n < 10 then [digit_char n] else show_nat (n div 10) @ [digit_char (n mod 10)])"
  by pat_completeness auto
termination
  by (relation "measure (\<lambda>n. n)") auto

declare show_nat.simps [simp del]

definition show_int :: "int \<Rightarrow> string" where
  "show_int k = (if k < 0 then CHR ''-'' # show_nat (nat (- k)) else show_nat (nat k))"

text \<open>
  The sequential and the threaded program build the payload with the same text:
  \<^verbatim>\<open>for (size_t i = 0; i < std::min<size_t>(100, data.size()); ++i) {
      if (i > 0) payload << ", ";
      payload << data[i]; }\<close>
\<close>

definition payload_head :: "string \<Rightarrow> int \<Rightarrow> string" where
  \<open>payload_head node_id t =
     ''{ "sensor_id": "'' @ node_id @ ''", '' @ ''"timestamp": '' @ show_int t @ '', '' @
     ''"audio_data": [''\<close>

function payload_loop :: "nat \<Rightarrow> int list \<Rightarrow> string \<Rightarrow> string" where
  "payload_loop i data payload =
     (if i < min 100 (length data)
      then payload_loop (i + 1) data
             ((if i > 0 then payload @ '', '' else payload) @ show_int (data ! i))
      else payload)"
  by pat_completeness auto
termination
  by (relation "measure (\<lambda>(i, data, payload). min 100 (length data) - i)") auto

declare payload_loop.simps [simp del]

definition build_payload :: "string \<Rightarrow> int \<Rightarrow> int list \<Rightarrow> string" where
  "build_payload node_id t data = payload_loop 0 data (payload_head node_id t) @ ''] }''"

definition cout_line :: "string \<Rightarrow> state \<Rightarrow> state" where
  "cout_line str s = s\<lparr>out := out s @ [Cout str]\<rparr>"

definition sendToCloud :: "int list \<Rightarrow> state \<Rightarrow> bool \<times> state" where
  "sendToCloud data s0 =
     (let s1 = log ''Transmit: Preparing payload...'' s0;
          (t, s2) = read_clock s1;
          payload = build_payload (id_field (self s2)) t data;
          (r, s3) = rand s2;
          success = (r smod 10 < 9)
      in if success
         then (let s4 = log ''Transmit: Sending data to cloud...'' s3;
                   s5 = cout_line (take 120 payload @ '' ...'') s4
               in (success, s5))
         else (let s4 = log ''Transmit: Failed to send data.'' s3
               in (success, s4)))"

text \<open>
  The OpenMP program writes the payload over several lines and puts the separator after
  an element instead of before it:
  \<^verbatim>\<open>payload << data[i];
  if (i < 99 && i < data.size() - 1) payload << ", ";\<close>
  Inside the loop \<^verbatim>\<open>data.size()\<close> is at least 1, so the subtraction does not wrap.
\<close>

definition payload_head_omp :: "string \<Rightarrow> int \<Rightarrow> string" where
  \<open>payload_head_omp node_id t =
     ''{'' @ [CHR 0x0A] @ ''  "sensor_id": "'' @ node_id @ ''",'' @ [CHR 0x0A] @
     ''  "timestamp": '' @ show_int t @ '','' @ [CHR 0x0A] @ ''  "audio_data": [''\<close>

function payload_loop_omp :: "nat \<Rightarrow> int list \<Rightarrow> string \<Rightarrow> string" where
  "payload_loop_omp i data payload =
     (if i < min 100 (length data)
      then payload_loop_omp (i + 1) data
             ((payload @ show_int (data ! i)) @
              (if i < 99 \<and> i < length data - 1 then '', '' else []))
      else payload)"
  by pat_completeness auto
termination
  by (relation "measure (\<lambda>(i, data, payload). min 100 (length data) - i)") auto

declare payload_loop_omp.simps [simp del]

definition build_payload_omp :: "string \<Rightarrow> int \<Rightarrow> int list \<Rightarrow> string" where
  "build_payload_omp node_id t data =
     payload_loop_omp 0 data (payload_head_omp node_id t) @ '']'' @ [CHR 0x0A] @ ''}''"

definition sendToCloud_omp :: "int list \<Rightarrow> state \<Rightarrow> bool \<times> state" where
  "sendToCloud_omp data s0 =
     (let s1 = log ''Transmit: Preparing payload...'' s0;
          (t, s2) = read_clock s1;
          payload = build_payload_omp (id_field (self s2)) t data;
          (r, s3) = rand s2;
          success = (r smod 10 < 9)
      in if success
         then (let s4 = log ''Transmit: Sending data to cloud...'' s3;
                   s5 = cout_line (take 120 payload @ '' ...'') s4
               in (success, s5))
         else (let s4 = log ''Transmit: Failed to send data.'' s3
               in (success, s4)))"

section \<open>The cycle and the main function (sequential program)\<close>

definition sleep_for :: "nat \<Rightarrow> state \<Rightarrow> state" where
  "sleep_for secs s = s\<lparr>out := out s @ [SleepFor secs]\<rparr>"

text \<open>
  \<^verbatim>\<open>runCycle\<close> returns nothing. \<open>runCycle_body\<close> is its body and also returns the values its
  local variables \<^verbatim>\<open>audio\<close> and \<^verbatim>\<open>compressed\<close> and the result of \<^verbatim>\<open>sendToCloud\<close> had, so
  that statements about them can be written; \<open>runCycle\<close> forgets them.
\<close>

definition runCycle_body :: "state \<Rightarrow> (int list \<times> int list \<times> bool) \<times> state" where
  "runCycle_body s0 =
     (let s1 = log ''---- Sensor Cycle Start ----'' s0;
          (audio, s2) = generateAudioData s1;
          (compressed, s3) = compressData audio s2;
          (sent, s4) = sendToCloud compressed s3;
          s5 = (if \<not> sent then log ''Error: Transmission failed. Logging for retry.'' s4
                else s4);
          s6 = log (''Sleep: Entering sleep mode...'' @ [CHR 0x0A]) s5;
          s7 = sleep_for 2 s6
      in ((audio, compressed, sent), s7))"

definition runCycle :: "state \<Rightarrow> state" where
  "runCycle s = snd (runCycle_body s)"

text \<open>
  \<^verbatim>\<open>main\<close> of the sequential program: one node, three cycles. Its inputs are the seeding
  function of the C library and the clock; nothing has been written yet.
\<close>

definition main_seq :: "(nat \<Rightarrow> int stream) \<Rightarrow> int stream \<Rightarrow> state" where
  "main_seq srand clk = (runCycle ^^ 3) (SensorNode_new srand ''sensor_001'' clk [])"

section \<open>The OpenMP program\<close>

text \<open>
  \<^verbatim>\<open>#pragma omp parallel for\<close> hands the iterations of the loop to a team of threads. Each
  iteration runs once; in which order they run is up to the runtime. The order is an
  input \<open>order\<close> of the model: the list of the loop indices in the order in which their
  bodies ran. The body of the generating loop is one call of \<^verbatim>\<open>std::rand\<close> and one write to
  the iteration's own cell, the body of the compressing loop is inside
  \<^verbatim>\<open>#pragma omp critical\<close>: bodies are taken as atomic. The list \<open>order\<close> is a schedule of
  a loop when it holds the indices of the loop, each once. (\<^verbatim>\<open>main\<close> of this program runs
  its three nodes in a parallel loop of its own; the model stops at the cycle.)
\<close>

definition is_schedule :: "nat list \<Rightarrow> nat list \<Rightarrow> bool" where
  "is_schedule order iterations = (sort order = iterations)"

definition gen_iterations :: "nat \<Rightarrow> nat list" where
  "gen_iterations n = [0..<n]"

definition compress_iterations :: "nat \<Rightarrow> nat list" where
  "compress_iterations n = map (\<lambda>k. 4 * k) [0..<(n + 3) div 4]"

text \<open>One iteration of the generating loop: \<^verbatim>\<open>data[i] = (std::rand() % (2 * range)) - range\<close>.\<close>

definition gen_iter :: "int \<Rightarrow> nat \<Rightarrow> int list \<times> state \<Rightarrow> int list \<times> state" where
  "gen_iter range_v i ds =
     (case ds of (data, s) \<Rightarrow>
        (let (r, s') = rand s in (data[i := r smod (2 * range_v) - range_v], s')))"

definition generateAudioData_omp :: "nat list \<Rightarrow> state \<Rightarrow> int list \<times> state" where
  "generateAudioData_omp order s0 =
     (let s1 = log ''Wake: Generating dummy audio data...'' s0;
          range_v = audio_range (self s1);
          data = replicate (nat (sample_rate (self s1) * duration (self s1))) 0
      in fold (gen_iter range_v) order (data, s1))"

text \<open>One iteration of the compressing loop: \<^verbatim>\<open>compressed.push_back(data[i])\<close>.\<close>

definition compress_iter :: "int list \<Rightarrow> nat \<Rightarrow> int list \<Rightarrow> int list" where
  "compress_iter data i compressed = compressed @ [data ! i]"

definition compressData_omp :: "nat list \<Rightarrow> int list \<Rightarrow> state \<Rightarrow> int list \<times> state" where
  "compressData_omp order data s0 =
     (let s1 = log ''Processing: Compressing audio data...'' s0
      in (fold (compress_iter data) order [], s1))"

definition runCycle_omp_body ::
  "nat list \<Rightarrow> nat list \<Rightarrow> state \<Rightarrow> (int list \<times> int list \<times> bool) \<times> state" where
  "runCycle_omp_body gen_order compress_order s0 =
     (let s1 = log ''---- Sensor Cycle Start ----'' s0;
          (audio, s2) = generateAudioData_omp gen_order s1;
          (compressed, s3) = compressData_omp compress_order audio s2;
          (sent, s4) = sendToCloud_omp compressed s3;
          s5 = (if \<not> sent then log ''Error: Transmission failed. Logging for retry.'' s4
                else s4);
          s6 = log (''Sleep: Entering sleep mode...'' @ [CHR 0x0A]) s5;
          s7 = sleep_for 2 s6
      in ((audio, compressed, sent), s7))"

section \<open>The threaded program\<close>

text \<open>
  \<^verbatim>\<open>generateAudioData\<close> fills a vector it is given by reference.
\<close>

definition generateAudioData_mt :: "int list \<Rightarrow> state \<Rightarrow> int list \<times> state" where
  "generateAudioData_mt data s0 =
     (let s1 = log ''Wake: Generating dummy audio data...'' s0;
          range_v = audio_range (self s1)
      in gen_loop range_v 0 data s1)"

text \<open>
  \<^verbatim>\<open>runCycle\<close> starts thread \<^verbatim>\<open>t1\<close> on \<^verbatim>\<open>generateAudioData(audio)\<close> and thread \<^verbatim>\<open>t2\<close> on
  \<^verbatim>\<open>compressData(audio, compressed)\<close>, then joins \<^verbatim>\<open>t1\<close>, then \<^verbatim>\<open>t2\<close>. While both run, the
  state is the two vectors (\<open>audio_v\<close> and \<open>compressed_v\<close> for the locals \<^verbatim>\<open>audio\<close> and
  \<^verbatim>\<open>compressed\<close> of \<^verbatim>\<open>runCycle\<close>), where each thread is in its function (\<open>None\<close>: it has not
  called \<^verbatim>\<open>log\<close> yet; \<open>Some i\<close>: it is at the loop test with index \<open>i\<close>), and the state of
  the process. A step of a thread is its call of \<^verbatim>\<open>log\<close> or one iteration of its loop;
  a thread that has left its loop does not move.
\<close>

datatype thread = T1 | T2

record mt_state =
  audio_v :: "int list"
  compressed_v :: "int list"
  pc1 :: "nat option"
  pc2 :: "nat option"
  proc :: state

definition t1_step :: "mt_state \<Rightarrow> mt_state" where
  "t1_step m =
     (case pc1 m of
        None \<Rightarrow>
          m\<lparr>pc1 := Some 0, proc := log ''Wake: Generating dummy audio data...'' (proc m)\<rparr>
      | Some i \<Rightarrow>
          if i < length (audio_v m)
          then (let (data', s') = gen_iter (audio_range (self (proc m))) i (audio_v m, proc m)
                in m\<lparr>audio_v := data', pc1 := Some (i + 1), proc := s'\<rparr>)
          else m)"

definition t2_step :: "mt_state \<Rightarrow> mt_state" where
  "t2_step m =
     (case pc2 m of
        None \<Rightarrow>
          m\<lparr>pc2 := Some 0, proc := log ''Processing: Compressing audio data...'' (proc m)\<rparr>
      | Some i \<Rightarrow>
          if i < length (audio_v m)
          then m\<lparr>compressed_v := compress_iter (audio_v m) i (compressed_v m),
                 pc2 := Some (i + 4)\<rparr>
          else m)"

definition t1_done :: "mt_state \<Rightarrow> bool" where
  "t1_done m = (case pc1 m of None \<Rightarrow> False | Some i \<Rightarrow> \<not> i < length (audio_v m))"

definition t2_done :: "mt_state \<Rightarrow> bool" where
  "t2_done m = (case pc2 m of None \<Rightarrow> False | Some i \<Rightarrow> \<not> i < length (audio_v m))"

fun step :: "thread \<Rightarrow> mt_state \<Rightarrow> mt_state" where
  "step T1 m = t1_step m"
| "step T2 m = t2_step m"

text \<open>
  \<^verbatim>\<open>t1.join()\<close> returns when \<^verbatim>\<open>t1\<close> has finished, \<^verbatim>\<open>t2.join()\<close> when \<^verbatim>\<open>t2\<close> has. The input
  \<open>sched\<close> says which thread makes each of the steps taken while both are running; what
  is left of \<^verbatim>\<open>t1\<close> when \<open>sched\<close> is used up runs in the first join, what is left of \<^verbatim>\<open>t2\<close>
  in the second. Every interleaving of the steps of the two threads is the run of
  some \<open>sched\<close>. The two threads are not synchronised on the audio vector; the model
  gives their run the meaning of the interleaving, in which a read of a cell sees
  the last value written to it.
\<close>

function join_t1 :: "mt_state \<Rightarrow> mt_state" where
  "join_t1 m = (if t1_done m then m else join_t1 (t1_step m))"
  by pat_completeness auto
termination
  by (relation "measure (\<lambda>m. case pc1 m of None \<Rightarrow> length (audio_v m) + 1
                                | Some i \<Rightarrow> length (audio_v m) - i)")
     (auto simp: t1_done_def t1_step_def gen_iter_def rand_def split: option.splits)

function join_t2 :: "mt_state \<Rightarrow> mt_state" where
  "join_t2 m = (if t2_done m then m else join_t2 (t2_step m))"
  by pat_completeness auto
termination
  by (relation "measure (\<lambda>m. case pc2 m of None \<Rightarrow> length (audio_v m) + 1
                                | Some i \<Rightarrow> length (audio_v m) - i)")
     (auto simp: t2_done_def t2_step_def split: option.splits)

declare join_t1.simps [simp del] join_t2.simps [simp del]

definition run_threads :: "thread list \<Rightarrow> mt_state \<Rightarrow> mt_state" where
  "run_threads sched m = join_t2 (join_t1 (fold step sched m))"

definition runCycle_mt_body ::
  "thread list \<Rightarrow> state \<Rightarrow> (int list \<times> int list \<times> bool) \<times> state" where
  "runCycle_mt_body sched s0 =
     (let s1 = log ''---- Sensor Cycle Start ----'' s0;
          m0 = \<lparr>audio_v = replicate (nat (sample_rate (self s1) * duration (self s1))) 0,
                compressed_v = [], pc1 = None, pc2 = None, proc = s1\<rparr>;
          m1 = run_threads sched m0;
          (sent, s4) = sendToCloud (compressed_v m1) (proc m1);
          s5 = (if \<not> sent then log ''Error: Transmission failed. Logging for retry.'' s4
                else s4);
          s6 = log (''Sleep: Entering sleep mode...'' @ [CHR 0x0A]) s5;
          s7 = sleep_for 2 s6
      in ((audio_v m1, compressed_v m1, sent), s7))"

text \<open>
  What thread \<^verbatim>\<open>t1\<close> will have written to the audio vector when it has finished, read off
  a state of the two threads: the cells below its index as they are, the others taken
  from the coming values of \<^verbatim>\<open>std::rand\<close>.
\<close>

definition t1_result :: "mt_state \<Rightarrow> int list" where
  "t1_result m =
     (let range_v = audio_range (self (proc m));
          i = (case pc1 m of None \<Rightarrow> 0 | Some i \<Rightarrow> i)
      in take i (audio_v m) @
         map (\<lambda>r. r smod (2 * range_v) - range_v)
           (stake (length (audio_v m) - i) (rng (proc m))))"

section \<open>A concrete process\<close>

text \<open>
  A process to evaluate the functions on: \<^verbatim>\<open>std::rand\<close> as the linear congruential
  generator of the C standard's example, reduced to 31 bits, and a clock that advances by
  one second at each reading.
\<close>

definition lcg :: "int \<Rightarrow> int" where
  "lcg x = (x * 1103515245 + 12345) mod 2 ^ 31"

definition demo_srand :: "nat \<Rightarrow> int stream" where
  "demo_srand seed = stl (siterate lcg (int seed))"

definition demo_state :: state where
  "demo_state =
     SensorNode_new demo_srand ''sensor_001'' (siterate (\<lambda>t. t + 1) 1700000000) []"

section \<open>The text of the sample array\<close>

text \<open>
  The decimal numbers of a list, separated by a comma and a space: what the payload
  is to hold between the brackets of \<^verbatim>\<open>"audio_data"\<close>.
\<close>

fun array_text :: "int list \<Rightarrow> string" where
  "array_text [] = []"
| "array_text [x] = show_int x"
| "array_text (x # y # ys) = show_int x @ '', '' @ array_text (y # ys)"

text \<open>
  Reading the text back: the value of a digit, of a decimal number, of a number with a
  sign, and the numbers of a text in which they are separated by a comma and a space.
\<close>

definition digit_val :: "char \<Rightarrow> nat" where
  "digit_val c = length (takeWhile (\<lambda>d. d \<noteq> c) ''0123456789'')"

definition read_nat :: "string \<Rightarrow> nat" where
  "read_nat s = foldl (\<lambda>a c. 10 * a + digit_val c) 0 s"

definition read_int :: "string \<Rightarrow> int" where
  "read_int s =
     (case s of
        [] \<Rightarrow> 0
      | c # r \<Rightarrow> if c = CHR ''-'' then - int (read_nat r) else int (read_nat s))"

function fields :: "string \<Rightarrow> string list" where
  "fields s =
     (case dropWhile (\<lambda>c. c \<noteq> CHR '','') s of
        [] \<Rightarrow> [s]
      | c # rest \<Rightarrow> takeWhile (\<lambda>c. c \<noteq> CHR '','') s # fields (drop 1 rest))"
  by pat_completeness auto
termination
proof (relation "measure length")
  show "wf (measure length)" by simp
next
  fix s :: string and c rest
  assume "dropWhile (\<lambda>c. c \<noteq> CHR '','') s = c # rest"
  then have "length (c # rest) \<le> length s"
    using length_dropWhile_le[of "\<lambda>c. c \<noteq> CHR '',''" s] by simp
  then show "(drop 1 rest, s) \<in> measure length" by simp
qed

declare fields.simps [simp del]

definition decode_array :: "string \<Rightarrow> int list" where
  "decode_array s = (if s = [] then [] else map read_int (fields s))"

section \<open>Facts about the iterations\<close>

lemma log_simps [simp]:
  "self (log msg s) = self s"
  "rng (log msg s) = rng s"
  "clock (log msg s) = stl (clock s)"
  "out (log msg s) = out s @ [Log (shd (clock s)) msg]"
  by (simp_all add: log_def read_clock_def)

lemma gen_loop_eq:
  "i \<le> length data \<Longrightarrow>
   gen_loop range_v i data s =
     (take i data @ map (\<lambda>r. r smod (2 * range_v) - range_v) (stake (length data - i) (rng s)),
      s\<lparr>rng := sdrop (length data - i) (rng s)\<rparr>)"
proof (induction range_v i data s rule: gen_loop.induct)
  case (1 range_v i data s)
  show ?case
  proof (cases "i < length data")
    case False
    with "1.prems" show ?thesis by (subst gen_loop.simps) simp
  next
    case True
    let ?v = "shd (rng s) smod (2 * range_v) - range_v"
    let ?s' = "s\<lparr>rng := stl (rng s)\<rparr>"
    have step: "gen_loop range_v i data s = gen_loop range_v (i + 1) (data[i := ?v]) ?s'"
      using True by (subst gen_loop.simps) (simp add: rand_def)
    have ih: "gen_loop range_v (i + 1) (data[i := ?v]) ?s' =
        (take (i + 1) (data[i := ?v]) @
           map (\<lambda>r. r smod (2 * range_v) - range_v)
             (stake (length (data[i := ?v]) - (i + 1)) (rng ?s')),
         ?s'\<lparr>rng := sdrop (length (data[i := ?v]) - (i + 1)) (rng ?s')\<rparr>)"
      using True by (intro "1.IH"[OF True]) (simp_all add: rand_def)
    obtain k where k: "length data - i = Suc k"
      using True by (cases "length data - i") auto
    then have k': "length data - Suc i = k" by simp
    have tk: "take (Suc i) (data[i := ?v]) = take i data @ [?v]"
      using True by (simp add: take_Suc_conv_app_nth)
    show ?thesis
      unfolding step ih by (simp add: k k' tk)
  qed
qed

lemma compress_loop_eq:
  "compress_loop i data acc =
     acc @ map (\<lambda>k. data ! (i + 4 * k)) [0..<(length data - i + 3) div 4]"
proof (induction i data acc rule: compress_loop.induct)
  case (1 i data acc)
  show ?case
  proof (cases "i < length data")
    case False
    then have "(length data - i + 3) div 4 = 0" by simp
    with False show ?thesis by (subst compress_loop.simps) simp
  next
    case True
    define m where "m = (length data - (i + 4) + 3) div 4"
    have cnt: "(length data - i + 3) div 4 = Suc m"
      using True unfolding m_def by (cases "length data - i < 4") (simp, arith)
    have "compress_loop i data acc = compress_loop (i + 4) data (acc @ [data ! i])"
      using True by (subst compress_loop.simps) simp
    also have "\<dots> = (acc @ [data ! i]) @ map (\<lambda>k. data ! (i + 4 + 4 * k)) [0..<m]"
      unfolding m_def by (rule "1.IH"[OF True])
    also have "\<dots> = acc @ map (\<lambda>k. data ! (i + 4 * k)) (0 # map Suc [0..<m])"
      by (simp add: comp_def add.assoc)
    also have "0 # map Suc [0..<m] = [0..<Suc m]"
      by (simp add: upt_conv_Cons map_Suc_upt del: upt_Suc)
    finally show ?thesis by (simp only: cnt)
  qed
qed

lemma fst_generateAudioData:
  "fst (generateAudioData s) =
     map (\<lambda>r. r smod (2 * audio_range (self s)) - audio_range (self s))
       (stake (nat (sample_rate (self s) * duration (self s))) (rng s))"
  by (simp add: generateAudioData_def Let_def gen_loop_eq)

lemma snd_generateAudioData:
  "snd (generateAudioData s) =
     (log ''Wake: Generating dummy audio data...'' s)
       \<lparr>rng := sdrop (nat (sample_rate (self s) * duration (self s))) (rng s)\<rparr>"
  by (simp add: generateAudioData_def Let_def gen_loop_eq)

lemma audio_range_eq: "audio_range n = 2 ^ nat (bit_depth n - 1)"
  by (simp add: audio_range_def push_bit_of_1)

lemma self_SensorNode_new [simp]:
  "self (SensorNode_new srand node_id clk evs) =
     \<lparr>id_field = node_id, sample_rate = 400000, bit_depth = 24, duration = 1,
      sleep_interval = 3600\<rparr>"
  by (simp add: SensorNode_new_def)

lemma ceil4: "n \<le> 4 * ((n + 3) div 4) \<and> 4 * ((n + 3) div 4) < n + 4" for n :: nat
  by arith

lemma length_generateAudioData:
  "length (fst (generateAudioData s)) = nat (sample_rate (self s) * duration (self s))"
  by (simp add: fst_generateAudioData)



lemma sample_in_range:
  assumes "0 \<le> r" "0 < R"
  shows "- R \<le> r smod (2 * R) - R \<and> r smod (2 * R) - R < (R::int)"
  using smod_int_compares(1)[of r "2 * R"] smod_int_compares(2)[of r "2 * R"] assms by simp

lemma audio_range_pos: "0 < audio_range n"
  by (simp add: audio_range_eq)

lemma fold_compress_iter:
  "fold (compress_iter data) order acc = acc @ map (\<lambda>i. data ! i) order"
  by (induction order arbitrary: acc) (simp_all add: compress_iter_def)

lemma is_schedule_length: "is_schedule order its \<Longrightarrow> length order = length its"
  unfolding is_schedule_def by (metis length_sort)

lemma demo_srand_nonneg: "r \<in> sset (demo_srand seed) \<Longrightarrow> 0 \<le> r"
proof -
  assume "r \<in> sset (demo_srand seed)"
  then obtain n where "r = (lcg ^^ n) (lcg (int seed))"
    by (auto simp: demo_srand_def sset_siterate)
  then have "r = lcg ((lcg ^^ n) (int seed))" by (simp add: funpow_swap1)
  then show ?thesis by (simp add: lcg_def)
qed

lemma rng_demo_state: "rng demo_state = demo_srand 1700000000"
  by (simp add: demo_state_def SensorNode_new_def)

lemma self_demo_state:
  "self demo_state =
     \<lparr>id_field = ''sensor_001'', sample_rate = 400000, bit_depth = 24, duration = 1,
      sleep_interval = 3600\<rparr>"
  by (simp add: demo_state_def)

section \<open>Facts about the payload and the cycle\<close>

lemma array_text_snoc:
  "array_text (xs @ [x]) = (if xs = [] then show_int x else array_text xs @ '', '' @ show_int x)"
  by (induction xs rule: array_text.induct) simp_all

lemma payload_loop_inv:
  "i \<le> min 100 (length data) \<Longrightarrow>
   payload_loop i data (p0 @ array_text (take i data)) =
     p0 @ array_text (take (min 100 (length data)) data)"
proof (induction "min 100 (length data) - i" arbitrary: i)
  case 0
  then have "i = min 100 (length data)" by simp
  then show ?case by (subst payload_loop.simps) simp
next
  case (Suc k)
  from Suc.hyps(2) have lt: "i < min 100 (length data)" by arith
  then have il: "i < length data" by simp
  have tk: "take (Suc i) data = take i data @ [data ! i]"
    using il by (simp add: take_Suc_conv_app_nth)
  have emp: "take i data = [] \<longleftrightarrow> i = 0" using il by (cases data) auto 
  have nxt: "(if i > 0 then (p0 @ array_text (take i data)) @ '', '' else p0 @ array_text (take i data))
                @ show_int (data ! i) = p0 @ array_text (take (Suc i) data)"
    using il by (auto simp: tk array_text_snoc emp)
  have "payload_loop i data (p0 @ array_text (take i data)) =
        payload_loop (i + 1) data (p0 @ array_text (take (Suc i) data))"
    by (subst payload_loop.simps) (simp only: if_P[OF lt] nxt)
  also have "\<dots> = p0 @ array_text (take (min 100 (length data)) data)"
    using Suc.hyps(1)[of "i + 1"] Suc.hyps(2) lt by simp
  finally show ?case .
qed

lemma build_payload_eq:
  "build_payload node_id t data = payload_head node_id t @ array_text (take 100 data) @ ''] }''"
  using payload_loop_inv[of 0 data "payload_head node_id t"]
  by (simp add: build_payload_def min_def)

lemma payload_loop_omp_inv:
  "i \<le> min 100 (length data) \<Longrightarrow>
   payload_loop_omp i data
     (p0 @ array_text (take i data) @ (if 0 < i \<and> i < min 100 (length data) then '', '' else [])) =
     p0 @ array_text (take (min 100 (length data)) data)"
proof (induction "min 100 (length data) - i" arbitrary: i)
  case 0
  then have "i = min 100 (length data)" by simp
  then show ?case by (subst payload_loop_omp.simps) simp
next
  case (Suc k)
  from Suc.hyps(2) have lt: "i < min 100 (length data)" by arith
  then have il: "i < length data" by simp
  have tk: "take (Suc i) data = take i data @ [data ! i]"
    using il by (simp add: take_Suc_conv_app_nth)
  have emp: "take i data = [] \<longleftrightarrow> i = 0" using il by (cases data) auto
  have cond: "(i < 99 \<and> i < length data - 1) \<longleftrightarrow> (0 < i + 1 \<and> i + 1 < min 100 (length data))"
    using il by auto
  have nxt: "((p0 @ array_text (take i data) @ (if 0 < i \<and> i < min 100 (length data) then '', '' else []))
                @ show_int (data ! i)) @ (if i < 99 \<and> i < length data - 1 then '', '' else [])
             = p0 @ array_text (take (i + 1) data) @
                 (if 0 < i + 1 \<and> i + 1 < min 100 (length data) then '', '' else [])"
    using lt il unfolding cond by (auto simp: tk array_text_snoc emp)
  have "payload_loop_omp i data
          (p0 @ array_text (take i data) @ (if 0 < i \<and> i < min 100 (length data) then '', '' else [])) =
        payload_loop_omp (i + 1) data (p0 @ array_text (take (i + 1) data) @
                 (if 0 < i + 1 \<and> i + 1 < min 100 (length data) then '', '' else []))"
    by (subst payload_loop_omp.simps) (simp only: if_P[OF lt] nxt)
  also have "\<dots> = p0 @ array_text (take (min 100 (length data)) data)"
    using Suc.hyps(1)[of "i + 1"] Suc.hyps(2) lt by simp
  finally show ?case .
qed

lemma build_payload_omp_eq:
  "build_payload_omp node_id t data =
     payload_head_omp node_id t @ array_text (take 100 data) @ '']'' @ [CHR 0x0A] @ ''}''"
  using payload_loop_omp_inv[of 0 data "payload_head_omp node_id t"]
  by (simp add: build_payload_omp_def min_def)


lemma sendToCloud_eq:
  "sendToCloud data s =
     (shd (rng s) smod 10 < 9,
      s\<lparr>rng := stl (rng s),
        clock := sdrop 3 (clock s),
        out := out s @
          (if shd (rng s) smod 10 < 9
           then [Log (clock s !! 0) ''Transmit: Preparing payload...'',
                 Log (clock s !! 2) ''Transmit: Sending data to cloud...'',
                 Cout (take 120 (build_payload (id_field (self s)) (clock s !! 1) data) @ '' ...'')]
           else [Log (clock s !! 0) ''Transmit: Preparing payload...'',
                 Log (clock s !! 2) ''Transmit: Failed to send data.''])\<rparr>)"
  by (simp add: sendToCloud_def log_def read_clock_def rand_def cout_line_def Let_def
      numeral_3_eq_3 numeral_2_eq_2)

lemma sendToCloud_omp_eq:
  "sendToCloud_omp data s =
     (shd (rng s) smod 10 < 9,
      s\<lparr>rng := stl (rng s),
        clock := sdrop 3 (clock s),
        out := out s @
          (if shd (rng s) smod 10 < 9
           then [Log (clock s !! 0) ''Transmit: Preparing payload...'',
                 Log (clock s !! 2) ''Transmit: Sending data to cloud...'',
                 Cout (take 120 (build_payload_omp (id_field (self s)) (clock s !! 1) data) @
                       '' ...'')]
           else [Log (clock s !! 0) ''Transmit: Preparing payload...'',
                 Log (clock s !! 2) ''Transmit: Failed to send data.''])\<rparr>)"
  by (simp add: sendToCloud_omp_def log_def read_clock_def rand_def cout_line_def Let_def
      numeral_3_eq_3 numeral_2_eq_2)

lemma runCycle_body_eq:
  "runCycle_body s =
     (let n = nat (sample_rate (self s) * duration (self s));
          c = clock s;
          audio = fst (generateAudioData (log ''---- Sensor Cycle Start ----'' s));
          compressed = compress_loop 0 audio [];
          sent = (rng s !! n) smod 10 < 9
      in ((audio, compressed, sent),
          s\<lparr>rng := sdrop (Suc n) (rng s),
            clock := sdrop (if sent then 7 else 8) c,
            out := out s @
              [Log (c !! 0) ''---- Sensor Cycle Start ----'',
               Log (c !! 1) ''Wake: Generating dummy audio data...'',
               Log (c !! 2) ''Processing: Compressing audio data...'',
               Log (c !! 3) ''Transmit: Preparing payload...''] @
              (if sent
               then [Log (c !! 5) ''Transmit: Sending data to cloud...'',
                     Cout (take 120 (build_payload (id_field (self s)) (c !! 4) compressed) @
                           '' ...''),
                     Log (c !! 6) (''Sleep: Entering sleep mode...'' @ [CHR 0x0A]),
                     SleepFor 2]
               else [Log (c !! 5) ''Transmit: Failed to send data.'',
                     Log (c !! 6) ''Error: Transmission failed. Logging for retry.'',
                     Log (c !! 7) (''Sleep: Entering sleep mode...'' @ [CHR 0x0A]),
                     SleepFor 2])\<rparr>))"
  by (simp add: runCycle_body_def Let_def split_beta snd_generateAudioData compressData_def
      sendToCloud_eq sleep_for_def eval_nat_numeral)

lemma self_runCycle: "self (runCycle s) = self s"
  by (simp add: runCycle_def runCycle_body_eq Let_def)

lemma self_runCycle_funpow: "self ((runCycle ^^ k) s) = self s"
  by (induction k) (simp_all add: self_runCycle)

lemma smod10_nat: "(int k smod 10 < 9) = (k mod 10 \<noteq> 9)"
proof -
  have "int k smod 10 = int k mod 10"
    by (simp add: smod_int_alt_def sgn_if)
  also have "\<dots> = int (k mod 10)" by (simp add: zmod_int)
  finally have e: "int k smod 10 = int (k mod 10)" .
  have "k mod 10 < 10" by simp
  then show ?thesis unfolding e by linarith
qed

lemma show_nat_digit: "n < 10 \<Longrightarrow> show_nat n = [digit_char n]"
  by (subst show_nat.simps) simp

lemma payload_example:
  \<open>build_payload ''sensor_001'' 17 [5, - 3, 12] =
     ''{ "sensor_id": "sensor_001", "timestamp": 17, "audio_data": [5, -3, 12] }''\<close>
  by (simp add: build_payload_eq payload_head_def show_int_def show_nat.simps[of 12]
      show_nat.simps[of 17] show_nat_digit digit_char_def)

lemma payload_omp_example:
  \<open>build_payload_omp ''s1'' 17 [5, - 3, 12] =
     ''{'' @ [CHR 0x0A] @ ''  "sensor_id": "s1",'' @ [CHR 0x0A] @ ''  "timestamp": 17,'' @
     [CHR 0x0A] @ ''  "audio_data": [5, -3, 12]'' @ [CHR 0x0A] @ ''}''\<close>
  by (simp add: build_payload_omp_eq payload_head_omp_def show_int_def show_nat.simps[of 12]
      show_nat.simps[of 17] show_nat_digit digit_char_def)

section \<open>Facts about the two threads\<close>

lemma t1_step_frame [simp]:
  "compressed_v (t1_step m) = compressed_v m"
  "pc2 (t1_step m) = pc2 m"
  "length (audio_v (t1_step m)) = length (audio_v m)"
  "self (proc (t1_step m)) = self (proc m)"
  by (simp_all add: t1_step_def gen_iter_def rand_def split: option.splits)

lemma t2_step_frame [simp]:
  "audio_v (t2_step m) = audio_v m"
  "pc1 (t2_step m) = pc1 m"
  "rng (proc (t2_step m)) = rng (proc m)"
  "self (proc (t2_step m)) = self (proc m)"
  by (simp_all add: t2_step_def split: option.splits)

lemma join_t1_done: "t1_done (join_t1 m)"
  by (induction m rule: join_t1.induct) (subst join_t1.simps, simp)

lemma join_t2_done: "t2_done (join_t2 m)"
  by (induction m rule: join_t2.induct) (subst join_t2.simps, simp)

lemma join_t1_inv:
  assumes "\<And>m. f (t1_step m) = f m"
  shows "f (join_t1 m) = f m"
  by (induction m rule: join_t1.induct) (subst join_t1.simps, simp add: assms)

lemma join_t2_inv:
  assumes "\<And>m. f (t2_step m) = f m"
  shows "f (join_t2 m) = f m"
  by (induction m rule: join_t2.induct) (subst join_t2.simps, simp add: assms)

lemma fold_step_inv:
  assumes "\<And>m. f (t1_step m) = f m" and "\<And>m. f (t2_step m) = f m"
  shows "f (fold step sched m) = f m"
proof (induction sched arbitrary: m)
  case Nil
  show ?case by simp
next
  case (Cons t sched)
  show ?case by (cases t) (simp_all add: Cons.IH assms)
qed

lemma run_threads_inv:
  assumes "\<And>m. f (t1_step m) = f m" and "\<And>m. f (t2_step m) = f m"
  shows "f (run_threads sched m) = f m"
  unfolding run_threads_def
  by (simp add: join_t2_inv[of f, OF assms(2)] join_t1_inv[of f, OF assms(1)]
      fold_step_inv[of f, OF assms])

lemma t1_done_t2_step: "t1_done (t2_step m) = t1_done m"
  by (simp add: t1_done_def split: option.splits)

lemma run_threads_done: "t1_done (run_threads sched m) \<and> t2_done (run_threads sched m)"
  unfolding run_threads_def
  by (simp add: join_t2_done join_t2_inv[of t1_done, OF t1_done_t2_step] join_t1_done)

lemma t1_result_t1_step: "t1_result (t1_step m) = t1_result m"
proof (cases "pc1 m")
  case None
  then show ?thesis by (simp add: t1_result_def t1_step_def)
next
  case (Some i)
  show ?thesis
  proof (cases "i < length (audio_v m)")
    case False
    with Some show ?thesis by (simp add: t1_step_def)
  next
    case True
    obtain k where k: "length (audio_v m) - i = Suc k"
      using True by (cases "length (audio_v m) - i") auto
    then have k': "length (audio_v m) - Suc i = k" by simp
    show ?thesis
      using Some True
      by (simp add: t1_result_def t1_step_def gen_iter_def rand_def k k'
          take_Suc_conv_app_nth)
  qed
qed

lemma t1_result_t2_step: "t1_result (t2_step m) = t1_result m"
  by (simp add: t1_result_def)

lemma t1_result_done: "t1_done m \<Longrightarrow> t1_result m = audio_v m"
  by (auto simp: t1_done_def t1_result_def split: option.splits)

lemma audio_run_threads: "audio_v (run_threads sched m) = t1_result m"
  using t1_result_done[of "run_threads sched m"] run_threads_done[of sched m]
    run_threads_inv[of t1_result, OF t1_result_t1_step t1_result_t2_step, of sched m]
  by simp

lemma rng_run_threads:
  "rng (proc (run_threads sched m)) =
     sdrop (length (audio_v m) - (case pc1 m of None \<Rightarrow> 0 | Some i \<Rightarrow> i)) (rng (proc m))"
proof -
  let ?f = "\<lambda>m. sdrop (length (audio_v m) - (case pc1 m of None \<Rightarrow> 0 | Some i \<Rightarrow> i))
                   (rng (proc m))"
  have s1: "?f (t1_step m) = ?f m" for m
  proof (cases "pc1 m")
    case None
    then show ?thesis by (simp add: t1_step_def)
  next
    case (Some i)
    show ?thesis
    proof (cases "i < length (audio_v m)")
      case False
      with Some show ?thesis by (simp add: t1_step_def)
    next
      case True
      obtain k where k: "length (audio_v m) - i = Suc k"
        using True by (cases "length (audio_v m) - i") auto
      then have k': "length (audio_v m) - Suc i = k" by simp
      show ?thesis
        using Some True by (simp add: t1_step_def gen_iter_def rand_def k k')
    qed
  qed
  have s2: "?f (t2_step m) = ?f m" for m by simp
  have d: "?f m' = rng (proc m')" if "t1_done m'" for m'
    using that by (auto simp: t1_done_def split: option.splits)
  show ?thesis
    using d[of "run_threads sched m"] run_threads_done[of sched m]
      run_threads_inv[of ?f, OF s1 s2, of sched m]
    by simp
qed

lemma self_run_threads: "self (proc (run_threads sched m)) = self (proc m)"
  by (rule run_threads_inv) simp_all

lemma length_compressed_run_threads:
  "length (compressed_v (run_threads sched m)) =
     length (compressed_v m) +
     (length (audio_v m) - (case pc2 m of None \<Rightarrow> 0 | Some i \<Rightarrow> i) + 3) div 4"
proof -
  let ?f = "\<lambda>m. length (compressed_v m) +
                (length (audio_v m) - (case pc2 m of None \<Rightarrow> 0 | Some i \<Rightarrow> i) + 3) div 4"
  have s1: "?f (t1_step m) = ?f m" for m by simp
  have s2: "?f (t2_step m) = ?f m" for m
  proof (cases "pc2 m")
    case None
    then show ?thesis by (simp add: t2_step_def)
  next
    case (Some i)
    show ?thesis
    proof (cases "i < length (audio_v m)")
      case False
      with Some show ?thesis by (simp add: t2_step_def)
    next
      case True
      have "(length (audio_v m) - i + 3) div 4 = Suc ((length (audio_v m) - (i + 4) + 3) div 4)"
        using True by (cases "length (audio_v m) - i < 4") (simp, arith)
      then show ?thesis
        using Some True by (simp add: t2_step_def compress_iter_def)
    qed
  qed
  have d: "?f m' = length (compressed_v m')" if "t2_done m'" for m'
    using that by (auto simp: t2_done_def split: option.splits)
  show ?thesis
    using d[of "run_threads sched m"] run_threads_done[of sched m]
      run_threads_inv[of ?f, OF s1 s2, of sched m]
    by simp
qed

lemma prefix_t2_step: "prefix (compressed_v m) (compressed_v (t2_step m))"
  by (simp add: t2_step_def compress_iter_def split: option.splits)

lemma prefix_join_t2: "prefix (compressed_v m) (compressed_v (join_t2 m))"
proof (induction m rule: join_t2.induct)
  case (1 m)
  show ?case
  proof (cases "t2_done m")
    case True
    then show ?thesis by (subst join_t2.simps) simp
  next
    case False
    have "prefix (compressed_v (t2_step m)) (compressed_v (join_t2 (t2_step m)))"
      using "1.IH"[OF False] .
    with prefix_t2_step[of m] have "prefix (compressed_v m) (compressed_v (join_t2 (t2_step m)))"
      by (rule prefix_order.trans)
    with False show ?thesis by (subst join_t2.simps) simp
  qed
qed

lemma compressed_join_t1: "compressed_v (join_t1 m) = compressed_v m"
  by (rule join_t1_inv) simp

lemma compressed_join_t2_alone:
  "compressed_v (join_t2 m) =
     compress_loop (case pc2 m of None \<Rightarrow> 0 | Some i \<Rightarrow> i) (audio_v m) (compressed_v m)"
proof (induction m rule: join_t2.induct)
  case (1 m)
  show ?case
  proof (cases "t2_done m")
    case True
    then show ?thesis
      by (subst join_t2.simps, subst compress_loop.simps)
         (auto simp: t2_done_def split: option.splits)
  next
    case False
    note ih = "1.IH"[OF False]
    show ?thesis
    proof (cases "pc2 m")
      case None
      then show ?thesis
        using False ih by (subst join_t2.simps) (simp add: t2_step_def)
    next
      case (Some i)
      with False have lt: "i < length (audio_v m)" by (simp add: t2_done_def)
      show ?thesis
        using False ih Some lt
        by (subst join_t2.simps, subst compress_loop.simps)
           (simp add: t2_step_def compress_iter_def)
    qed
  qed
qed

section \<open>The parallel programs when nothing overtakes\<close>

lemma fold_gen_iter_upt:
  "i \<le> length data \<Longrightarrow>
   fold (gen_iter range_v) [i..<length data] (data, s) = gen_loop range_v i data s"
proof (induction range_v i data s rule: gen_loop.induct)
  case (1 range_v i data s)
  show ?case
  proof (cases "i < length data")
    case False
    then show ?thesis by (subst gen_loop.simps) simp
  next
    case True
    let ?d = "data[i := shd (rng s) smod (2 * range_v) - range_v]"
    let ?s = "s\<lparr>rng := stl (rng s)\<rparr>"
    have ih: "fold (gen_iter range_v) [i + 1..<length ?d] (?d, ?s) =
              gen_loop range_v (i + 1) ?d ?s"
      using True by (intro "1.IH"[OF True]) (simp_all add: rand_def)
    have "fold (gen_iter range_v) [i..<length data] (data, s) =
          fold (gen_iter range_v) [i + 1..<length ?d] (?d, ?s)"
      using True by (simp add: upt_conv_Cons gen_iter_def rand_def)
    also note ih
    also have "gen_loop range_v (i + 1) ?d ?s = gen_loop range_v i data s"
      using True by (subst (2) gen_loop.simps) (simp add: rand_def)
    finally show ?thesis .
  qed
qed

lemma generateAudioData_omp_in_order:
  "generateAudioData_omp (gen_iterations (nat (sample_rate (self s) * duration (self s)))) s =
     generateAudioData s"
  using fold_gen_iter_upt[of 0
      "replicate (nat (sample_rate (self s) * duration (self s))) 0"
      "audio_range (self s)" "log ''Wake: Generating dummy audio data...'' s"]
  by (simp add: generateAudioData_omp_def generateAudioData_def gen_iterations_def Let_def)

lemma compressData_omp_in_order:
  "compressData_omp (compress_iterations (length data)) data s = compressData data s"
  by (simp add: compressData_omp_def compressData_def fold_compress_iter compress_loop_eq
      compress_iterations_def comp_def)

lemma audio_join_t1: "audio_v (join_t1 m) = t1_result m"
  using t1_result_done[OF join_t1_done[of m]] join_t1_inv[of t1_result, OF t1_result_t1_step]
  by simp

lemma pc2_join_t1: "pc2 (join_t1 m) = pc2 m"
  by (rule join_t1_inv) simp

lemma compressed_run_threads_Nil:
  "compressed_v (run_threads [] m) =
     compress_loop (case pc2 m of None \<Rightarrow> 0 | Some i \<Rightarrow> i) (t1_result m) (compressed_v m)"
  by (simp add: run_threads_def compressed_join_t2_alone pc2_join_t1 audio_join_t1
      compressed_join_t1)

lemma runCycle_mt_body_locals:
  "fst (runCycle_mt_body sched s) =
     (let s1 = log ''---- Sensor Cycle Start ----'' s;
          m1 = run_threads sched
                 \<lparr>audio_v = replicate (nat (sample_rate (self s) * duration (self s))) 0,
                  compressed_v = [], pc1 = None, pc2 = None, proc = s1\<rparr>
      in (fst (generateAudioData s1), compressed_v m1,
          (rng s !! nat (sample_rate (self s) * duration (self s))) smod 10 < 9))"
  by (simp add: runCycle_mt_body_def Let_def split_beta sendToCloud_eq audio_run_threads
      rng_run_threads t1_result_def fst_generateAudioData)

lemma threads_agree_in_order:
  "fst (runCycle_mt_body [] s) = fst (runCycle_body s)"
  by (simp add: runCycle_mt_body_locals runCycle_body_eq Let_def compressed_run_threads_Nil
      t1_result_def fst_generateAudioData)

lemma openmp_agrees_in_order:
  "fst (runCycle_omp_body
         (gen_iterations (nat (sample_rate (self s) * duration (self s))))
         (compress_iterations (nat (sample_rate (self s) * duration (self s)))) s) =
   fst (runCycle_body s)"
proof -
  let ?n = "nat (sample_rate (self s) * duration (self s))"
  let ?s1 = "log ''---- Sensor Cycle Start ----'' s"
  have g: "generateAudioData_omp (gen_iterations ?n) ?s1 = generateAudioData ?s1"
    using generateAudioData_omp_in_order[of ?s1] by simp
  have l: "length (fst (generateAudioData ?s1)) = ?n"
    by (simp add: length_generateAudioData)
  have c: "compressData_omp (compress_iterations ?n) (fst (generateAudioData ?s1)) s' =
           compressData (fst (generateAudioData ?s1)) s'" for s'
    using compressData_omp_in_order[of "fst (generateAudioData ?s1)" s'] by (simp only: l)
  show ?thesis
    by (simp add: runCycle_omp_body_def runCycle_body_def Let_def split_beta g c
        sendToCloud_eq sendToCloud_omp_eq)
qed

lemma first_sample_demo_state:
  "shd (rng demo_state) smod (2 * audio_range (self demo_state)) - audio_range (self demo_state)
     = - 5518023"
  by (simp add: rng_demo_state demo_srand_def lcg_def self_demo_state audio_range_eq
      smod_int_alt_def)

lemma compressed_first_stale:
  assumes "0 < length (audio_v m)" and "pc2 m = None" and "compressed_v m = []"
  shows "compressed_v (run_threads (T2 # T2 # sched) m) ! 0 = audio_v m ! 0"
proof -
  let ?m2 = "t2_step (t2_step m)"
  have c2: "compressed_v ?m2 = [audio_v m ! 0]"
    using assms by (simp add: t2_step_def compress_iter_def)
  have p1: "prefix (compressed_v ?m2) (compressed_v (fold step sched ?m2))"
  proof (induction sched arbitrary: m rule: rev_induct)
    case Nil
    show ?case by simp
  next
    case (snoc t sched)
    show ?case
    proof (cases t)
      case T1
      with snoc show ?thesis by simp
    next
      case T2
      with snoc[of m] prefix_t2_step[of "fold step sched (t2_step (t2_step m))"]
      show ?thesis by (auto intro: prefix_order.trans)
    qed
  qed
  have p2: "prefix (compressed_v (fold step sched ?m2))
              (compressed_v (join_t2 (join_t1 (fold step sched ?m2))))"
    using prefix_join_t2[of "join_t1 (fold step sched ?m2)"] by (simp add: compressed_join_t1)
  have "prefix [audio_v m ! 0] (compressed_v (run_threads (T2 # T2 # sched) m))"
    using prefix_order.trans[OF p1 p2] by (simp add: run_threads_def c2)
  then show ?thesis by (auto simp: prefix_def)
qed

lemma t1_alone_is_generateAudioData_mt:
  "pc1 m = None \<Longrightarrow> audio_v (join_t1 m) = fst (generateAudioData_mt (audio_v m) (proc m))"
  by (simp add: audio_join_t1 t1_result_def generateAudioData_mt_def gen_loop_eq Let_def)

lemma t2_alone_is_compressData_mt:
  "pc2 m = None \<Longrightarrow>
   compressed_v (join_t2 m) = fst (compressData_mt (audio_v m) (compressed_v m) (proc m))"
  by (simp add: compressed_join_t2_alone compressData_mt_def)

section \<open>Reading the sample array back\<close>

lemma digit_val_digit_char: "d < 10 \<Longrightarrow> digit_val (digit_char d) = d"
proof -
  assume "d < 10"
  then have "d \<in> {0, 1, 2, 3, 4, 5, 6, 7, 8, 9}" by auto
  then show ?thesis
    by (auto simp: digit_val_def digit_char_def)
qed

lemma digit_char_in_digits: "d < 10 \<Longrightarrow> digit_char d \<in> set ''0123456789''"
proof -
  assume "d < 10"
  then have "d \<in> {0, 1, 2, 3, 4, 5, 6, 7, 8, 9}" by auto
  then show ?thesis
    by (auto simp: digit_char_def)
qed

lemma show_nat_digits: "set (show_nat n) \<subseteq> set ''0123456789''"
proof (induction n rule: show_nat.induct)
  case (1 n)
  show ?case
  proof (cases "n < 10")
    case True
    then show ?thesis
      using digit_char_in_digits[of n] by (subst show_nat.simps) simp
  next
    case False
    have "n mod 10 < 10" by simp
    then show ?thesis
      using False "1.IH"[OF False] digit_char_in_digits[of "n mod 10"]
      by (subst show_nat.simps) simp
  qed
qed

lemma show_nat_not_Nil: "show_nat n \<noteq> []"
  by (subst show_nat.simps) simp

lemma read_nat_snoc: "read_nat (s @ [c]) = 10 * read_nat s + digit_val c"
  by (simp add: read_nat_def)

lemma read_nat_show_nat: "read_nat (show_nat n) = n"
proof (induction n rule: show_nat.induct)
  case (1 n)
  show ?case
  proof (cases "n < 10")
    case True
    then show ?thesis
      by (subst show_nat.simps) (simp add: read_nat_def digit_val_digit_char)
  next
    case False
    have "read_nat (show_nat n) =
          read_nat (show_nat (n div 10) @ [digit_char (n mod 10)])"
      using False by (subst show_nat.simps) simp
    also have "\<dots> = 10 * (n div 10) + n mod 10"
      using "1.IH"[OF False] by (simp add: read_nat_snoc digit_val_digit_char)
    finally show ?thesis by simp
  qed
qed

lemma read_int_show_int: "read_int (show_int k) = k"
proof (cases "k < 0")
  case True
  then show ?thesis by (simp add: show_int_def read_int_def read_nat_show_nat)
next
  case False
  obtain c r where cr: "show_nat (nat k) = c # r"
    using show_nat_not_Nil[of "nat k"] by (cases "show_nat (nat k)") auto
  then have "c \<in> set ''0123456789''"
    using show_nat_digits[of "nat k"] by auto
  then have "c \<noteq> CHR ''-''" by auto
  with False cr read_nat_show_nat[of "nat k"] show ?thesis
    by (simp add: show_int_def read_int_def)
qed

lemma no_comma_show_int: "c \<in> set (show_int k) \<Longrightarrow> c \<noteq> CHR '',''"
  using show_nat_digits[of "nat k"] show_nat_digits[of "nat (- k)"]
  by (auto simp: show_int_def split: if_splits)

lemma show_int_not_Nil: "show_int k \<noteq> []"
  by (simp add: show_int_def show_nat_not_Nil)

lemma fields_array_text: "xs \<noteq> [] \<Longrightarrow> fields (array_text xs) = map show_int xs"
proof (induction xs rule: array_text.induct)
  case 1
  then show ?case by simp
next
  case (2 x)
  have e: "dropWhile (\<lambda>c. c \<noteq> CHR '','') (show_int x) = []"
    using no_comma_show_int[of _ x] by simp
  show ?case by (subst fields.simps) (simp add: e)
next
  case (3 x y ys)
  let ?r = "array_text (y # ys)"
  have d: "dropWhile (\<lambda>c. c \<noteq> CHR '','') (show_int x @ '', '' @ ?r) = '', '' @ ?r"
    using no_comma_show_int[of _ x] by (simp add: dropWhile_append2)
  have t: "takeWhile (\<lambda>c. c \<noteq> CHR '','') (show_int x @ '', '' @ ?r) = show_int x"
    using no_comma_show_int[of _ x] by (simp add: takeWhile_append2)
  have "fields (array_text (x # y # ys)) = show_int x # fields ?r"
    by (subst fields.simps) (simp only: array_text.simps d t, simp)
  with "3.IH" show ?case by simp
qed

lemma array_text_not_Nil: "xs \<noteq> [] \<Longrightarrow> array_text xs \<noteq> []"
  by (induction xs rule: array_text.induct) (simp_all add: show_int_not_Nil)

lemma decode_array_text: "decode_array (array_text xs) = xs"
proof (cases "xs = []")
  case True
  then show ?thesis by (simp add: decode_array_def)
next
  case False
  then show ?thesis
    by (simp add: decode_array_def array_text_not_Nil fields_array_text comp_def
        read_int_show_int)
qed

section \<open>Claims about compression and generation\<close>

text \<open>
  C1. For every input list \<open>data\<close>, \<open>compressData\<close> returns exactly the elements of \<open>data\<close>
  at the indices 0, 4, 8, ... below its length, in their original order and unchanged.
  The threaded program's \<open>compressData\<close>, called on a vector that does not change during
  the call, appends exactly these elements to the vector it is given, which \<open>runCycle\<close>
  passes empty.
\<close>

theorem C1_compress_every_fourth:
  "fst (compressData data s) = map (\<lambda>k. data ! (4 * k)) [0..<(length data + 3) div 4] \<and>
   fst (compressData_mt data buf s) =
     buf @ map (\<lambda>k. data ! (4 * k)) [0..<(length data + 3) div 4]"
  by (simp add: compressData_def compressData_mt_def compress_loop_eq)

text \<open>
  C2. Every value produced by \<open>generateAudioData\<close> lies in the half-open interval from
  \<open>- range\<close> to \<open>range\<close>, where \<open>range = 2 ^ (bit_depth - 1)\<close>, at every position of the
  output and for every stream of non-negative values of \<^verbatim>\<open>std::rand\<close>; for a node made by
  the constructor \<open>range\<close> is \<open>2 ^ 23 = 8388608\<close>. The bit depths 1 to 30 are those for
  which \<^verbatim>\<open>1 << (bit_depth - 1)\<close> and \<^verbatim>\<open>2 * range\<close> are defined on a 32-bit \<^verbatim>\<open>int\<close>.
\<close>

theorem C2_samples_in_range:
  assumes "1 \<le> bit_depth (self s)" and "bit_depth (self s) \<le> 30"
    and "\<forall>r \<in> sset (rng s). 0 \<le> r"
    and "i < length (fst (generateAudioData s))"
  shows "- (2 ^ nat (bit_depth (self s) - 1)) \<le> fst (generateAudioData s) ! i \<and>
         fst (generateAudioData s) ! i < 2 ^ nat (bit_depth (self s) - 1) \<and>
         audio_range (self s) = 2 ^ nat (bit_depth (self s) - 1) \<and>
         audio_range (self (SensorNode_new srand node_id clk evs)) = 8388608"
proof -
  let ?n = "nat (sample_rate (self s) * duration (self s))"
  let ?R = "audio_range (self s)"
  from assms(4) have i: "i < ?n" by (simp add: fst_generateAudioData)
  then have "stake ?n (rng s) ! i \<in> sset (rng s)" by simp
  with assms(3) have nonneg: "0 \<le> stake ?n (rng s) ! i" by blast
  have "fst (generateAudioData s) ! i = stake ?n (rng s) ! i smod (2 * ?R) - ?R"
    using i by (simp add: fst_generateAudioData del: stake_nth)
  moreover have "0 < ?R" by (rule audio_range_pos)
  ultimately show ?thesis
    using sample_in_range[OF nonneg, of ?R] by (simp add: audio_range_eq)
qed

theorem C2_samples_in_range_witness:
  "1 \<le> bit_depth (self demo_state) \<and> bit_depth (self demo_state) \<le> 30 \<and>
   0 \<le> shd (rng demo_state) \<and>
   0 < length (fst (generateAudioData demo_state)) \<and>
   - 8388608 \<le> fst (generateAudioData demo_state) ! 0 \<and>
   fst (generateAudioData demo_state) ! 0 < 8388608"
proof -
  have h1: "1 \<le> bit_depth (self demo_state)" by (simp add: self_demo_state)
  have h2: "bit_depth (self demo_state) \<le> 30" by (simp add: self_demo_state)
  have h3: "\<forall>r \<in> sset (rng demo_state). 0 \<le> r"
    by (simp add: rng_demo_state demo_srand_nonneg)
  have h4: "0 < length (fst (generateAudioData demo_state))"
    by (simp add: length_generateAudioData self_demo_state)
  have h5: "0 \<le> shd (rng demo_state)"
    using h3 shd_sset[of "rng demo_state"] by blast
  show ?thesis
    using h1 h2 h4 h5 C2_samples_in_range[OF h1 h2 h3 h4] by (simp add: self_demo_state)
qed

text \<open>
  C3. For an input of length \<open>n\<close> the list returned by \<open>compressData\<close> has length
  \<open>(n + 3) div 4\<close>, the least \<open>L\<close> with \<open>n \<le> 4 * L\<close>, that is \<open>n / 4\<close> rounded up; it is
  empty exactly when the input is. The same holds for the OpenMP program in whatever
  order the team runs the iterations 0, 4, 8, ...
\<close>

theorem C3_compress_length:
  assumes "is_schedule order (compress_iterations (length data))"
  shows "length (fst (compressData data s)) = (length data + 3) div 4 \<and>
         length (fst (compressData_omp order data s)) = (length data + 3) div 4 \<and>
         length data \<le> 4 * ((length data + 3) div 4) \<and>
         4 * ((length data + 3) div 4) < length data + 4 \<and>
         (fst (compressData data s) = [] \<longleftrightarrow> data = []) \<and>
         (fst (compressData_omp order data s) = [] \<longleftrightarrow> data = [])"
proof -
  have l1: "length (fst (compressData data s)) = (length data + 3) div 4"
    by (simp add: compressData_def compress_loop_eq)
  have l2: "length (fst (compressData_omp order data s)) = (length data + 3) div 4"
    using is_schedule_length[OF assms]
    by (simp add: compressData_omp_def fold_compress_iter compress_iterations_def)
  have z: "(length data + 3) div 4 = 0 \<longleftrightarrow> data = []" by (cases data) simp_all
  have e1: "fst (compressData data s) = [] \<longleftrightarrow> data = []"
    using l1 z by (metis length_0_conv)
  have e2: "fst (compressData_omp order data s) = [] \<longleftrightarrow> data = []"
    using l2 z by (metis length_0_conv)
  show ?thesis using l1 l2 e1 e2 ceil4[of "length data"] by simp
qed

theorem C3_compress_length_witness:
  "is_schedule [4, 0] (compress_iterations (length [10, 20, 30, 40, 50 :: int])) \<and>
   length (fst (compressData [10, 20, 30, 40, 50] demo_state)) = 2 \<and>
   length (fst (compressData_omp [4, 0] [10, 20, 30, 40, 50] demo_state)) = 2"
proof -
  have h: "is_schedule [4, 0] (compress_iterations (length [10, 20, 30, 40, 50 :: int]))"
    by (simp add: is_schedule_def compress_iterations_def upt_rec)
  show ?thesis
    using h C3_compress_length[OF h, of demo_state] by simp
qed



section \<open>Claims about transmission and the cycle\<close>

text \<open>
  C4. \<open>sendToCloud\<close> returns true exactly when the value drawn from \<^verbatim>\<open>std::rand\<close>, taken
  \<^verbatim>\<open>% 10\<close>, is less than 9: for a draw \<open>k \<ge> 0\<close>, whenever its last decimal digit is not 9.
  In \<open>runCycle\<close> the draw is the one after the \<open>n = sample_rate * duration\<close> draws of the
  generation. Whatever it is, the cycle draws \<open>n + 1\<close> values and no more (nothing is
  sent again), returns to its caller with the node as it was, and ends with the same
  line about sleeping and the same \<^verbatim>\<open>sleep_for\<close>; after a false result the one thing
  \<open>runCycle\<close> itself adds is the line \<^verbatim>\<open>Error: Transmission failed. Logging for retry.\<close>
\<close>

theorem C4_send_outcome:
  "fst (sendToCloud data s) = (shd (rng s) smod 10 < 9) \<and>
   (int k smod 10 < 9) = (k mod 10 \<noteq> 9) \<and>
   (let n = nat (sample_rate (self s) * duration (self s)); c = clock s
    in case fst (runCycle_body s) of (a, cmp, sent) \<Rightarrow>
         sent = ((rng s !! n) smod 10 < 9) \<and>
         rng (runCycle s) = sdrop (Suc n) (rng s) \<and>
         self (runCycle s) = self s \<and>
         out (runCycle s) = out s @
           [Log (c !! 0) ''---- Sensor Cycle Start ----'',
            Log (c !! 1) ''Wake: Generating dummy audio data...'',
            Log (c !! 2) ''Processing: Compressing audio data...'',
            Log (c !! 3) ''Transmit: Preparing payload...''] @
           (if sent
            then [Log (c !! 5) ''Transmit: Sending data to cloud...'',
                  Cout (take 120 (build_payload (id_field (self s)) (c !! 4) cmp) @ '' ...'')]
            else [Log (c !! 5) ''Transmit: Failed to send data.'',
                  Log (c !! 6) ''Error: Transmission failed. Logging for retry.'']) @
           [Log (c !! (if sent then 6 else 7)) (''Sleep: Entering sleep mode...'' @ [CHR 0x0A]),
            SleepFor 2])"
  by (simp add: sendToCloud_eq runCycle_def runCycle_body_eq Let_def smod10_nat)

text \<open>
  C6. \<open>runCycle\<close> leaves every field of the node as it was, and so do any number of
  cycles and the three cycles of \<open>main\<close>. What a cycle hands to the next one is the state
  of \<^verbatim>\<open>std::rand\<close>, advanced by the \<open>n + 1\<close> draws; of what has been written before, a cycle
  reads nothing: started with another history \<open>evs\<close> it does the same and appends the same
  events.
\<close>

theorem C6_node_unchanged:
  "self (runCycle s) = self s \<and>
   self ((runCycle ^^ k) s) = self s \<and>
   self (main_seq srand clk) =
     \<lparr>id_field = ''sensor_001'', sample_rate = 400000, bit_depth = 24, duration = 1,
      sleep_interval = 3600\<rparr> \<and>
   rng (runCycle s) = sdrop (Suc (nat (sample_rate (self s) * duration (self s)))) (rng s) \<and>
   runCycle (s\<lparr>out := evs\<rparr>) =
     (runCycle s)\<lparr>out := evs @ drop (length (out s)) (out (runCycle s))\<rparr>"
  by (simp add: self_runCycle self_runCycle_funpow main_seq_def)
     (simp add: runCycle_def runCycle_body_eq Let_def fst_generateAudioData)

text \<open>
  C9. The payload is the head with the sensor id and the time, the decimal text of the
  first \<open>min 100 (length data)\<close> elements of \<open>data\<close> in their order, and the closing
  bracket and brace; it is the payload of \<open>take 100 data\<close>, so no element from index 100
  on has any part in it, and reading the text of the array back gives these elements.
  \<open>sendToCloud\<close> writes the first 120 characters of the payload, followed by \<^verbatim>\<open> ...\<close>, when
  the transmission succeeds, and nothing of it otherwise. The same holds for the OpenMP
  program with its own head and closing text.
\<close>

theorem C9_payload_first_hundred:
  "build_payload node_id t data =
     payload_head node_id t @ array_text (take 100 data) @ ''] }'' \<and>
   build_payload_omp node_id t data =
     payload_head_omp node_id t @ array_text (take 100 data) @ '']'' @ [CHR 0x0A] @ ''}'' \<and>
   length (take 100 data) = min 100 (length data) \<and>
   build_payload node_id t data = build_payload node_id t (take 100 data) \<and>
   build_payload_omp node_id t data = build_payload_omp node_id t (take 100 data) \<and>
   decode_array (array_text (take 100 data)) = take 100 data \<and>
   out (snd (sendToCloud data s)) = out s @
     Log (clock s !! 0) ''Transmit: Preparing payload...'' #
     (if fst (sendToCloud data s)
      then [Log (clock s !! 2) ''Transmit: Sending data to cloud...'',
            Cout (take 120 (build_payload (id_field (self s)) (clock s !! 1) data) @ '' ...'')]
      else [Log (clock s !! 2) ''Transmit: Failed to send data.'']) \<and>
   out (snd (sendToCloud_omp data s)) = out s @
     Log (clock s !! 0) ''Transmit: Preparing payload...'' #
     (if fst (sendToCloud_omp data s)
      then [Log (clock s !! 2) ''Transmit: Sending data to cloud...'',
            Cout (take 120 (build_payload_omp (id_field (self s)) (clock s !! 1) data) @
                  '' ...'')]
      else [Log (clock s !! 2) ''Transmit: Failed to send data.''])"
  by (simp add: build_payload_eq build_payload_omp_eq sendToCloud_eq sendToCloud_omp_eq
      decode_array_text)

text \<open>
  C10. The result of \<open>sendToCloud\<close> depends on the state of \<^verbatim>\<open>std::rand\<close> alone: two calls
  that start with the same generator state return the same boolean, whatever the two
  lists, the two sensor ids, the two clocks and the two histories are.
\<close>

theorem C10_outcome_depends_on_rng_only:
  assumes "rng s = rng s'"
  shows "fst (sendToCloud data s) = fst (sendToCloud data' s') \<and>
         fst (sendToCloud_omp data s) = fst (sendToCloud_omp data' s')"
  using assms by (simp add: sendToCloud_eq sendToCloud_omp_eq)

theorem C10_outcome_depends_on_rng_only_witness:
  "rng demo_state =
     rng (demo_state\<lparr>self := (self demo_state)\<lparr>id_field := ''sensor_002''\<rparr>,
                     clock := sconst 5, out := [SleepFor 1]\<rparr>) \<and>
   fst (sendToCloud [1, 2, 3] demo_state) =
     fst (sendToCloud []
       (demo_state\<lparr>self := (self demo_state)\<lparr>id_field := ''sensor_002''\<rparr>,
                    clock := sconst 5, out := [SleepFor 1]\<rparr>))"
proof -
  have h: "rng demo_state =
     rng (demo_state\<lparr>self := (self demo_state)\<lparr>id_field := ''sensor_002''\<rparr>,
                     clock := sconst 5, out := [SleepFor 1]\<rparr>)"
    by simp
  show ?thesis
    using h C10_outcome_depends_on_rng_only[OF h, of "[1, 2, 3]" "[]"] by simp
qed

section \<open>Claims about the three programs side by side\<close>

text \<open>
  C5 (evaluation at a failing input). The claim is that a cycle of each of the three
  programs, given the same stream of \<^verbatim>\<open>std::rand\<close>, yields the same generated data, the
  same compressed sequence and the same result of the transmission. In the threaded
  program thread \<^verbatim>\<open>t2\<close> reads the audio vector while \<^verbatim>\<open>t1\<close> is still filling it. On the
  node of \<open>main\<close>, when \<^verbatim>\<open>t2\<close> makes its first two steps before \<^verbatim>\<open>t1\<close> has written the first
  cell, the first compressed element is the 0 the vector was created with, while the
  first generated sample, which the sequential program compresses, is \<open>-5518023\<close>.
  In the OpenMP program the order of the compressed elements follows the order in which
  the team runs the iterations: for five samples, with iteration 4 before iteration 0
  the result is reversed.
\<close>

theorem C5_threaded_cycle_diverges:
  "(case fst (runCycle_mt_body [T2, T2] demo_state) of (a, cmp, sent) \<Rightarrow>
      a ! 0 = - 5518023 \<and> cmp ! 0 = 0) \<and>
   (case fst (runCycle_body demo_state) of (a, cmp, sent) \<Rightarrow>
      a ! 0 = - 5518023 \<and> cmp ! 0 = - 5518023) \<and>
   is_schedule [4, 0] (compress_iterations (length [10, 20, 30, 40, 50 :: int])) \<and>
   fst (compressData_omp [4, 0] [10, 20, 30, 40, 50] demo_state) = [50, 10] \<and>
   fst (compressData [10, 20, 30, 40, 50] demo_state) = [10, 50]"
proof -
  let ?s1 = "log ''---- Sensor Cycle Start ----'' demo_state"
  let ?m0 = "\<lparr>audio_v = replicate (nat (sample_rate (self demo_state) *
                         duration (self demo_state))) 0,
              compressed_v = [], pc1 = None, pc2 = None, proc = ?s1\<rparr>"
  have a0: "fst (generateAudioData ?s1) ! 0 = - 5518023"
    using first_sample_demo_state
    by (simp add: fst_generateAudioData self_demo_state del: stake_nth)
       (simp add: self_demo_state)
  have mt: "compressed_v (run_threads [T2, T2] ?m0) ! 0 = 0"
    using compressed_first_stale[of ?m0 "[]"] by (simp add: self_demo_state)
  have sq: "compress_loop 0 (fst (generateAudioData ?s1)) [] ! 0 = fst (generateAudioData ?s1) ! 0"
    by (simp add: compress_loop_eq length_generateAudioData self_demo_state)
  have omp: "fst (compressData_omp [4, 0] [10, 20, 30, 40, 50] demo_state) = [50, 10]"
    by (simp add: compressData_omp_def compress_iter_def)
  have seq: "fst (compressData [10, 20, 30, 40, 50] demo_state) = [10, 50]"
    by (simp add: compressData_def compress_loop_eq upt_rec)
  have sch: "is_schedule [4, 0] (compress_iterations (length [10, 20, 30, 40, 50 :: int]))"
    by (simp add: is_schedule_def compress_iterations_def upt_rec)
  show ?thesis
    using a0 mt sq omp seq sch
    by (simp add: runCycle_mt_body_locals runCycle_body_eq Let_def)
qed

text \<open>
  C7 (the claim as stated fails). The claim lets the two workers share nothing that
  changes but the two vectors. Both workers call \<^verbatim>\<open>log\<close>, which writes to \<^verbatim>\<open>std::cout\<close>: at the
  start of the cycle of the node of \<open>main\<close>, a step of either worker changes the output.
\<close>

theorem C7_workers_share_output:
  "out (proc (t1_step
     \<lparr>audio_v = replicate 400000 0, compressed_v = [], pc1 = None, pc2 = None,
      proc = log ''---- Sensor Cycle Start ----'' demo_state\<rparr>)) \<noteq>
   out (log ''---- Sensor Cycle Start ----'' demo_state) \<and>
   out (proc (t2_step
     \<lparr>audio_v = replicate 400000 0, compressed_v = [], pc1 = None, pc2 = None,
      proc = log ''---- Sensor Cycle Start ----'' demo_state\<rparr>)) \<noteq>
   out (log ''---- Sensor Cycle Start ----'' demo_state)"
  by (simp add: t1_step_def t2_step_def)

text \<open>
  C7 (amended). In the threaded program a cycle runs exactly two workers, \<^verbatim>\<open>t1\<close>
  generating into the audio vector and \<^verbatim>\<open>t2\<close> compressing from it into the compressed
  vector. Whatever the interleaving, both have finished when the joins return, and
  \<open>sendToCloud\<close> starts after that: every event of the workers precedes its first line.
  A step of \<^verbatim>\<open>t1\<close> leaves the compressed vector and the position of \<^verbatim>\<open>t2\<close> alone; a step of
  \<^verbatim>\<open>t2\<close> leaves the audio vector, the position of \<^verbatim>\<open>t1\<close> and the state of \<^verbatim>\<open>std::rand\<close> alone;
  neither changes a field of the node. Besides the audio vector, which \<^verbatim>\<open>t1\<close> writes and
  \<^verbatim>\<open>t2\<close> reads, the workers share the output stream, to which each writes a line with
  \<^verbatim>\<open>log\<close> when it starts.
\<close>

theorem C7_fork_join:
  "(UNIV :: thread set) = {T1, T2} \<and>
   compressed_v (t1_step m) = compressed_v m \<and> pc2 (t1_step m) = pc2 m \<and>
   audio_v (t2_step m) = audio_v m \<and> pc1 (t2_step m) = pc1 m \<and>
   rng (proc (t2_step m)) = rng (proc m) \<and>
   self (proc (t1_step m)) = self (proc m) \<and> self (proc (t2_step m)) = self (proc m) \<and>
   out (proc (t1_step (m\<lparr>pc1 := None\<rparr>))) =
     out (proc m) @ [Log (shd (clock (proc m))) ''Wake: Generating dummy audio data...''] \<and>
   out (proc (t2_step (m\<lparr>pc2 := None\<rparr>))) =
     out (proc m) @ [Log (shd (clock (proc m))) ''Processing: Compressing audio data...''] \<and>
   t1_done (run_threads sched m) \<and> t2_done (run_threads sched m) \<and>
   (let s1 = log ''---- Sensor Cycle Start ----'' s;
        n = nat (sample_rate (self s) * duration (self s));
        m1 = run_threads sched
               \<lparr>audio_v = replicate n 0, compressed_v = [], pc1 = None, pc2 = None,
                proc = s1\<rparr>
    in t1_done m1 \<and> t2_done m1 \<and>
       audio_v m1 = fst (generateAudioData s1) \<and>
       length (compressed_v m1) = (n + 3) div 4 \<and>
       rng (proc m1) = sdrop n (rng s) \<and>
       (\<exists>rest. out (snd (runCycle_mt_body sched s)) =
          out (proc m1) @
          Log (shd (clock (proc m1))) ''Transmit: Preparing payload...'' # rest))"
proof -
  have u: "(UNIV :: thread set) = {T1, T2}"
    using thread.exhaust by auto
  let ?s1 = "log ''---- Sensor Cycle Start ----'' s"
  let ?n = "nat (sample_rate (self s) * duration (self s))"
  let ?m0 = "\<lparr>audio_v = replicate ?n 0, compressed_v = [], pc1 = None, pc2 = None,
              proc = ?s1\<rparr>"
  let ?m1 = "run_threads sched ?m0"
  have a: "audio_v ?m1 = fst (generateAudioData ?s1)"
    by (simp add: audio_run_threads t1_result_def fst_generateAudioData Let_def)
  have l: "length (compressed_v ?m1) = (?n + 3) div 4"
    by (simp add: length_compressed_run_threads)
  have r: "rng (proc ?m1) = sdrop ?n (rng s)"
    by (simp add: rng_run_threads)
  have e: "\<exists>rest. out (snd (runCycle_mt_body sched s)) =
             out (proc ?m1) @
             Log (shd (clock (proc ?m1))) ''Transmit: Preparing payload...'' # rest"
    by (simp add: runCycle_mt_body_def Let_def split_beta sendToCloud_eq sleep_for_def)
  have o1: "out (proc (t1_step (m\<lparr>pc1 := None\<rparr>))) =
      out (proc m) @ [Log (shd (clock (proc m))) ''Wake: Generating dummy audio data...'']"
    by (simp add: t1_step_def)
  have o2: "out (proc (t2_step (m\<lparr>pc2 := None\<rparr>))) =
      out (proc m) @ [Log (shd (clock (proc m))) ''Processing: Compressing audio data...'']"
    by (simp add: t2_step_def)
  show ?thesis
    using u a l r e o1 o2 run_threads_done[of sched m] run_threads_done[of sched ?m0]
    by (simp add: Let_def)
qed

end
